theory Spec2Isabelle
  imports Main
begin

section \<open>The tuning table of \<^verbatim>\<open>scales.h\<close>\<close>

text \<open>
  \<^verbatim>\<open>const int tuningValues[]\<close>: the measured PWM values, one per semitone, C to B over
  three octaves plus one more C. Every value of the program (a table entry, an index,
  the argument \<^verbatim>\<open>val\<close>) is a C \<^verbatim>\<open>int\<close>. They are modelled as \<open>int\<close>: for
  the arguments from 0 to \<open>totalNotes - 1\<close>, which the source comment names as the
  domain of the quantizers, no intermediate result leaves the range \<open>0..157\<close>, and
  \<^verbatim>\<open>val / 12\<close>, \<^verbatim>\<open>val % 12\<close> and the comparisons of the loop are exact at every
  width, so the width of \<^verbatim>\<open>int\<close> plays no part.
\<close>

definition tuningValues :: "int list" where
  "tuningValues =
    [0, 11, 15, 19, 23, 27, 31, 35, 40, 44, 48, 53,
     57, 61, 65, 69, 73, 77, 82, 86, 90, 94, 99, 103,
     107, 112, 116, 120, 124, 128, 132, 137, 141, 145, 149, 153,
     157]"

text \<open>\<^verbatim>\<open>const int totalNotes = sizeof(tuningValues) / sizeof(tuningValues[0]);\<close>\<close>

definition totalNotes :: int where
  "totalNotes = int (length tuningValues)"

text \<open>
  The read \<^verbatim>\<open>tuningValues[i]\<close>. Outside the array the C program has undefined
  behaviour; the model makes that read the fault \<open>OutOfBounds\<close> instead of a value.
\<close>

datatype fault = OutOfBounds

definition value_at :: "int \<Rightarrow> fault + int" where
  "value_at i =
     (if 0 \<le> i \<and> i < int (length tuningValues) then Inr (tuningValues ! nat i)
      else Inl OutOfBounds)"

section \<open>C integer division\<close>

text \<open>
  \<^verbatim>\<open>/\<close> and \<^verbatim>\<open>%\<close> on C integers truncate towards zero, whereas \<open>div\<close> and \<open>mod\<close>
  of HOL round down. \<^verbatim>\<open>a % b\<close> is \<^verbatim>\<open>a - (a / b) * b\<close>.
\<close>

definition c_div :: "int \<Rightarrow> int \<Rightarrow> int" where
  "c_div a b = (if (a < 0) = (b < 0) then \<bar>a\<bar> div \<bar>b\<bar> else - (\<bar>a\<bar> div \<bar>b\<bar>))"

definition c_mod :: "int \<Rightarrow> int \<Rightarrow> int" where
  "c_mod a b = a - c_div a b * b"

section \<open>The quantizers\<close>

text \<open>
  The three functions of the source have the same text but for the array of steps and
  the literal of the last \<^verbatim>\<open>return\<close>. Their loop
  \<^verbatim>\<open>
  for (int i = 0; i < 7; i++) {
    if (semitone <= steps[i]) {
      return tuningValues[(octave * 12) + steps[i]];
    }
  }
  \<close>
  is the function \<open>scan\<close>, started at \<open>i = 0\<close>: \<open>Some r\<close> when the loop returns \<open>r\<close>
  from its body, \<open>None\<close> when it ends with \<open>i = 7\<close> and control reaches the statement
  after it.
\<close>

function scan :: "int list \<Rightarrow> int \<Rightarrow> int \<Rightarrow> nat \<Rightarrow> (fault + int) option" where
  "scan steps octave semitone i =
     (if i < 7 then
        (if semitone \<le> steps ! i then Some (value_at ((octave * 12) + steps ! i))
         else scan steps octave semitone (i + 1))
      else None)"
  by pat_completeness auto
termination
  by (relation "measure (\<lambda>(steps, octave, semitone, i). 7 - i)") auto

declare scan.simps [simp del]

text \<open>
  The common body of the three functions: \<open>steps\<close> is the local array, \<open>fallback\<close> the
  literal added to \<^verbatim>\<open>octave * 12\<close> in the \<^verbatim>\<open>return\<close> after the loop.
\<close>

definition quantizeSteps :: "int list \<Rightarrow> int \<Rightarrow> int \<Rightarrow> fault + int" where
  "quantizeSteps steps fallback val =
     (let octave = c_div val 12;
          semitone = c_mod val 12
      in case scan steps octave semitone 0 of
           Some r \<Rightarrow> r
         | None \<Rightarrow> value_at ((octave * 12) + fallback))"

definition majorSteps :: "int list" where
  "majorSteps = [0, 2, 4, 5, 7, 9, 11]"

definition minorSteps :: "int list" where
  "minorSteps = [0, 2, 3, 5, 7, 8, 10]"

definition phrygianSteps :: "int list" where
  "phrygianSteps = [0, 1, 3, 5, 7, 8, 10]"

definition quantizeToMajor :: "int \<Rightarrow> fault + int" where
  "quantizeToMajor val = quantizeSteps majorSteps 11 val"

definition quantizeToMinor :: "int \<Rightarrow> fault + int" where
  "quantizeToMinor val = quantizeSteps minorSteps 10 val"

definition quantizeToPhrygian :: "int \<Rightarrow> fault + int" where
  "quantizeToPhrygian val = quantizeSteps phrygianSteps 10 val"

section \<open>The offset the specification selects\<close>

text \<open>
  The specification describes the result through the offset it is read at: the smallest
  offset of the scale that is at least the semitone when there is one, the largest offset
  of the scale otherwise. \<open>spec_offset\<close> follows these words, not the loop.
\<close>

definition spec_offset :: "int list \<Rightarrow> int \<Rightarrow> int" where
  "spec_offset steps semitone =
     (if \<exists>off\<in>set steps. semitone \<le> off
      then Min (set (filter (\<lambda>off. semitone \<le> off) steps))
      else Max (set steps))"

section \<open>Truncating division on the arguments in range\<close>

lemma c_div_nonneg: "0 \<le> a \<Longrightarrow> c_div a 12 = a div 12"
  by (simp add: c_div_def)

lemma c_mod_nonneg: "0 \<le> a \<Longrightarrow> c_mod a 12 = a mod 12"
  by (simp add: c_mod_def c_div_nonneg minus_div_mult_eq_mod)

lemma c_div_mod_decompose: "(c_div val 12 * 12) + c_mod val 12 = val"
  by (simp add: c_mod_def)

section \<open>The loop finds the first offset at or above the semitone\<close>

lemma scan_find:
  "length steps = 7 \<Longrightarrow> i \<le> 7 \<Longrightarrow>
   scan steps octave semitone i =
     map_option (\<lambda>off. value_at ((octave * 12) + off))
       (find (\<lambda>off. semitone \<le> off) (drop i steps))"
proof (induction steps octave semitone i rule: scan.induct)
  case (1 steps octave semitone i)
  show ?case
  proof (cases "i < 7")
    case True
    with "1.prems" have d: "drop i steps = steps ! i # drop (Suc i) steps"
      by (simp add: Cons_nth_drop_Suc)
    show ?thesis
    proof (cases "semitone \<le> steps ! i")
      case True
      with \<open>i < 7\<close> d show ?thesis
        by (subst scan.simps) simp
    next
      case False
      with \<open>i < 7\<close> "1.IH" "1.prems" have
        "scan steps octave semitone (i + 1) =
           map_option (\<lambda>off. value_at ((octave * 12) + off))
             (find (\<lambda>off. semitone \<le> off) (drop (i + 1) steps))"
        by simp
      with False \<open>i < 7\<close> d show ?thesis
        by (subst scan.simps) simp
    qed
  next
    case False
    with "1.prems" show ?thesis
      by (subst scan.simps) simp
  qed
qed

lemma find_sorted_first:
  assumes "sorted steps"
  shows "find (\<lambda>off. semitone \<le> off) steps =
           (if \<exists>off\<in>set steps. semitone \<le> off
            then Some (Min (set (filter (\<lambda>off. semitone \<le> off) steps)))
            else None)"
proof (cases "\<exists>off\<in>set steps. semitone \<le> off")
  case True
  with assms show ?thesis
    using sorted_find_Min [of steps "\<lambda>off. semitone \<le> off"] by simp
next
  case False
  then show ?thesis
    by (simp add: find_None_iff)
qed

lemma quantizeSteps_spec_offset:
  assumes "sorted steps" and "length steps = 7"
  shows "quantizeSteps steps (Max (set steps)) val =
           value_at ((c_div val 12 * 12) + spec_offset steps (c_mod val 12))"
  using assms
  by (simp add: quantizeSteps_def Let_def scan_find find_sorted_first spec_offset_def)

section \<open>Properties of the selected offset\<close>

lemma spec_offset_mem:
  "steps \<noteq> [] \<Longrightarrow> spec_offset steps semitone \<in> set steps"
proof -
  assume ne: "steps \<noteq> []"
  show ?thesis
  proof (cases "\<exists>off\<in>set steps. semitone \<le> off")
    case True
    then have "set (filter (\<lambda>off. semitone \<le> off) steps) \<noteq> {}"
      by (auto simp: filter_empty_conv)
    then have "Min (set (filter (\<lambda>off. semitone \<le> off) steps)) \<in> set (filter (\<lambda>off. semitone \<le> off) steps)"
      by (intro Min_in) simp_all
    with True show ?thesis
      by (simp add: spec_offset_def)
  next
    case False
    with ne show ?thesis
      by (simp add: spec_offset_def)
  qed
qed

lemma spec_offset_exact:
  assumes "semitone \<in> set steps"
  shows "spec_offset steps semitone = semitone"
proof -
  from assms have ex: "\<exists>off\<in>set steps. semitone \<le> off"
    by auto
  have "Min (set (filter (\<lambda>off. semitone \<le> off) steps)) = semitone"
    using assms by (intro Min_eqI) auto
  with ex show ?thesis
    by (simp add: spec_offset_def)
qed

lemma spec_offset_ge:
  assumes "\<exists>off\<in>set steps. semitone \<le> off"
  shows "semitone \<le> spec_offset steps semitone"
proof -
  from assms have "set (filter (\<lambda>off. semitone \<le> off) steps) \<noteq> {}"
    by (auto simp: filter_empty_conv)
  then have "Min (set (filter (\<lambda>off. semitone \<le> off) steps)) \<in> set (filter (\<lambda>off. semitone \<le> off) steps)"
    by (intro Min_in) simp_all
  with assms show ?thesis
    by (simp add: spec_offset_def)
qed

lemma spec_offset_mono:
  assumes "s \<le> t"
  shows "spec_offset steps s \<le> spec_offset steps t"
proof (cases "\<exists>off\<in>set steps. t \<le> off")
  case True
  with assms have exs: "\<exists>off\<in>set steps. s \<le> off"
    by (meson order_trans)
  from True have ne: "set (filter (\<lambda>off. t \<le> off) steps) \<noteq> {}"
    by (auto simp: filter_empty_conv)
  from assms have "set (filter (\<lambda>off. t \<le> off) steps) \<subseteq> set (filter (\<lambda>off. s \<le> off) steps)"
    by auto
  with ne have "Min (set (filter (\<lambda>off. s \<le> off) steps)) \<le> Min (set (filter (\<lambda>off. t \<le> off) steps))"
    by (intro Min_antimono) simp_all
  with True exs show ?thesis
    by (simp add: spec_offset_def)
next
  case False
  show ?thesis
  proof (cases "steps = []")
    case True
    then show ?thesis by (simp add: spec_offset_def)
  next
    case ne: False
    then have "spec_offset steps s \<in> set steps"
      by (rule spec_offset_mem)
    then have "spec_offset steps s \<le> Max (set steps)"
      by simp
    with False show ?thesis
      by (simp add: spec_offset_def)
  qed
qed

section \<open>The table and the three scales\<close>

lemma length_tuningValues: "length tuningValues = 37"
  by (simp add: tuningValues_def)

lemma totalNotes_eq: "totalNotes = 37"
  by (simp add: totalNotes_def length_tuningValues)

lemma sorted_tuningValues: "sorted tuningValues"
  by (simp add: tuningValues_def)

lemma strict_tuningValues: "sorted_wrt (<) tuningValues"
  by (simp add: tuningValues_def)

lemma value_at_in_range:
  "0 \<le> i \<Longrightarrow> i \<le> 36 \<Longrightarrow> value_at i = Inr (tuningValues ! nat i)"
  by (simp add: value_at_def length_tuningValues)

lemma tuningValues_mono:
  "0 \<le> i \<Longrightarrow> i \<le> j \<Longrightarrow> j \<le> 36 \<Longrightarrow> tuningValues ! nat i \<le> tuningValues ! nat j"
  using sorted_tuningValues by (intro sorted_nth_mono) (simp_all add: length_tuningValues)

lemma tuningValues_strict:
  "0 \<le> i \<Longrightarrow> i < j \<Longrightarrow> j \<le> 36 \<Longrightarrow> tuningValues ! nat i < tuningValues ! nat j"
  using sorted_wrt_nth_less [OF strict_tuningValues, of "nat i" "nat j"]
  by (simp add: length_tuningValues)

lemma major_facts: "length majorSteps = 7" "sorted majorSteps" "0 \<in> set majorSteps"
  "list_all (\<lambda>off. 0 \<le> off \<and> off \<le> 11) majorSteps" "Max (set majorSteps) = 11"
  by (simp_all add: majorSteps_def)

lemma minor_facts: "length minorSteps = 7" "sorted minorSteps" "0 \<in> set minorSteps"
  "list_all (\<lambda>off. 0 \<le> off \<and> off \<le> 11) minorSteps" "Max (set minorSteps) = 10"
  by (simp_all add: minorSteps_def)

lemma phrygian_facts: "length phrygianSteps = 7" "sorted phrygianSteps" "0 \<in> set phrygianSteps"
  "list_all (\<lambda>off. 0 \<le> off \<and> off \<le> 11) phrygianSteps" "Max (set phrygianSteps) = 10"
  by (simp_all add: phrygianSteps_def)

lemma major_spec_offset:
  "quantizeToMajor val = value_at ((c_div val 12 * 12) + spec_offset majorSteps (c_mod val 12))"
  using quantizeSteps_spec_offset [of majorSteps val]
  by (simp add: quantizeToMajor_def major_facts)

lemma minor_spec_offset:
  "quantizeToMinor val = value_at ((c_div val 12 * 12) + spec_offset minorSteps (c_mod val 12))"
  using quantizeSteps_spec_offset [of minorSteps val]
  by (simp add: quantizeToMinor_def minor_facts)

lemma phrygian_spec_offset:
  "quantizeToPhrygian val =
     value_at ((c_div val 12 * 12) + spec_offset phrygianSteps (c_mod val 12))"
  using quantizeSteps_spec_offset [of phrygianSteps val]
  by (simp add: quantizeToPhrygian_def phrygian_facts)

lemma spec_index_in_range:
  assumes val: "0 \<le> val" "val \<le> 36"
    and steps: "list_all (\<lambda>off. 0 \<le> off \<and> off \<le> 11) steps" "0 \<in> set steps"
  shows "0 \<le> (c_div val 12 * 12) + spec_offset steps (c_mod val 12) \<and>
         (c_div val 12 * 12) + spec_offset steps (c_mod val 12) \<le> 36"
proof -
  let ?off = "spec_offset steps (c_mod val 12)"
  from steps(2) have "steps \<noteq> []"
    by auto
  then have "?off \<in> set steps"
    by (rule spec_offset_mem)
  with steps(1) have off: "0 \<le> ?off" "?off \<le> 11"
    by (simp_all add: list_all_iff)
  from val(1) have dm: "c_div val 12 = val div 12" "c_mod val 12 = val mod 12"
    by (simp_all add: c_div_nonneg c_mod_nonneg)
  show ?thesis
  proof (cases "val = 36")
    case True
    from val(1) True have "c_mod val 12 = 0"
      by (simp add: c_mod_nonneg)
    with steps(2) have "?off = 0"
      by (simp add: spec_offset_exact)
    moreover from True have "c_div val 12 = 3"
      by (simp add: c_div_def)
    ultimately show ?thesis
      by simp
  next
    case False
    with val have "0 \<le> val div 12" "val div 12 \<le> 2"
      by simp_all
    with off show ?thesis
      by (simp add: dm)
  qed
qed

lemma quantize_in_range:
  assumes val: "0 \<le> val" "val \<le> 36"
    and steps: "list_all (\<lambda>off. 0 \<le> off \<and> off \<le> 11) steps" "0 \<in> set steps"
  shows "value_at ((c_div val 12 * 12) + spec_offset steps (c_mod val 12)) =
           Inr (tuningValues ! nat ((c_div val 12 * 12) + spec_offset steps (c_mod val 12)))"
  using spec_index_in_range [OF assms] by (simp add: value_at_in_range)

section \<open>Rounding up to the scale\<close>

text \<open>
  Claim C1. For every \<open>val\<close> from 0 to \<open>totalNotes - 1\<close>, each of the three quantizers
  returns the table entry at \<open>octave * 12 + off\<close>, with \<open>octave = val / 12\<close> and
  \<open>semitone = val % 12\<close>, where \<open>off\<close> is the smallest offset of the scale that is at
  least \<open>semitone\<close> if there is one, and the largest offset of the scale otherwise.
\<close>

theorem quantizers_round_up:
  assumes "0 \<le> val" and "val \<le> totalNotes - 1"
  shows "quantizeToMajor val =
           Inr (tuningValues ! nat ((c_div val 12 * 12) + spec_offset majorSteps (c_mod val 12))) \<and>
         quantizeToMinor val =
           Inr (tuningValues ! nat ((c_div val 12 * 12) + spec_offset minorSteps (c_mod val 12))) \<and>
         quantizeToPhrygian val =
           Inr (tuningValues ! nat ((c_div val 12 * 12) + spec_offset phrygianSteps (c_mod val 12)))"
proof -
  from assms have val: "0 \<le> val" "val \<le> 36"
    by (simp_all add: totalNotes_eq)
  have "quantizeToMajor val =
      Inr (tuningValues ! nat ((c_div val 12 * 12) + spec_offset majorSteps (c_mod val 12)))"
    unfolding major_spec_offset by (rule quantize_in_range [OF val major_facts(4) major_facts(3)])
  moreover have "quantizeToMinor val =
      Inr (tuningValues ! nat ((c_div val 12 * 12) + spec_offset minorSteps (c_mod val 12)))"
    unfolding minor_spec_offset by (rule quantize_in_range [OF val minor_facts(4) minor_facts(3)])
  moreover have "quantizeToPhrygian val =
      Inr (tuningValues ! nat ((c_div val 12 * 12) + spec_offset phrygianSteps (c_mod val 12)))"
    unfolding phrygian_spec_offset
    by (rule quantize_in_range [OF val phrygian_facts(4) phrygian_facts(3)])
  ultimately show ?thesis
    by simp
qed

theorem quantizers_round_up_witness:
  "(0::int) \<le> 23 \<and> 23 \<le> totalNotes - 1 \<and>
   spec_offset majorSteps (c_mod 23 12) = 11 \<and> quantizeToMajor 23 = Inr 103 \<and>
   spec_offset minorSteps (c_mod 23 12) = 10 \<and> quantizeToMinor 23 = Inr 99 \<and>
   spec_offset phrygianSteps (c_mod 14 12) = 3 \<and> quantizeToPhrygian 14 = Inr 69"
  using quantizers_round_up [of 23] quantizers_round_up [of 14]
  by (simp add: totalNotes_eq spec_offset_def c_div_def c_mod_def majorSteps_def minorSteps_def
      phrygianSteps_def tuningValues_def)

section \<open>Every read stays inside the table\<close>

lemma quantize_reads_in_range:
  assumes val: "0 \<le> val" "val \<le> 36"
    and steps: "list_all (\<lambda>off. 0 \<le> off \<and> off \<le> 11) steps" "0 \<in> set steps"
    and q: "q = value_at ((c_div val 12 * 12) + spec_offset steps (c_mod val 12))"
  shows "\<exists>off\<in>set steps.
           0 \<le> (c_div val 12 * 12) + off \<and> (c_div val 12 * 12) + off \<le> totalNotes - 1 \<and>
           q = value_at ((c_div val 12 * 12) + off) \<and>
           q = Inr (tuningValues ! nat ((c_div val 12 * 12) + off))"
proof (intro bexI conjI)
  from steps(2) have "steps \<noteq> []"
    by auto
  then show "spec_offset steps (c_mod val 12) \<in> set steps"
    by (rule spec_offset_mem)
  from spec_index_in_range [OF val steps]
  show "0 \<le> (c_div val 12 * 12) + spec_offset steps (c_mod val 12)"
    and "(c_div val 12 * 12) + spec_offset steps (c_mod val 12) \<le> totalNotes - 1"
    by (simp_all add: totalNotes_eq)
  show "q = value_at ((c_div val 12 * 12) + spec_offset steps (c_mod val 12))"
    by (fact q)
  with quantize_in_range [OF val steps]
  show "q = Inr (tuningValues ! nat ((c_div val 12 * 12) + spec_offset steps (c_mod val 12)))"
    by simp
qed

text \<open>
  Claim C2. For every \<open>val\<close> from 0 to \<open>totalNotes - 1\<close> and each of the three
  quantizers, the index \<open>octave * 12 + off\<close> at which the call reads the table, with
  \<open>octave = val / 12\<close> and \<open>off\<close> an offset of the scale, lies between 0 and
  \<open>totalNotes - 1\<close>: the read is no fault, and the result is the table entry at that
  index. A call reads the table once, in the \<^verbatim>\<open>return\<close> it leaves by.
\<close>

theorem quantizers_read_in_range:
  assumes "0 \<le> val" and "val \<le> totalNotes - 1"
  shows "(\<exists>off\<in>set majorSteps.
            0 \<le> (c_div val 12 * 12) + off \<and> (c_div val 12 * 12) + off \<le> totalNotes - 1 \<and>
            quantizeToMajor val = value_at ((c_div val 12 * 12) + off) \<and>
            quantizeToMajor val = Inr (tuningValues ! nat ((c_div val 12 * 12) + off))) \<and>
         (\<exists>off\<in>set minorSteps.
            0 \<le> (c_div val 12 * 12) + off \<and> (c_div val 12 * 12) + off \<le> totalNotes - 1 \<and>
            quantizeToMinor val = value_at ((c_div val 12 * 12) + off) \<and>
            quantizeToMinor val = Inr (tuningValues ! nat ((c_div val 12 * 12) + off))) \<and>
         (\<exists>off\<in>set phrygianSteps.
            0 \<le> (c_div val 12 * 12) + off \<and> (c_div val 12 * 12) + off \<le> totalNotes - 1 \<and>
            quantizeToPhrygian val = value_at ((c_div val 12 * 12) + off) \<and>
            quantizeToPhrygian val = Inr (tuningValues ! nat ((c_div val 12 * 12) + off)))"
proof -
  from assms have val: "0 \<le> val" "val \<le> 36"
    by (simp_all add: totalNotes_eq)
  show ?thesis
    using quantize_reads_in_range [OF val major_facts(4) major_facts(3) major_spec_offset]
      quantize_reads_in_range [OF val minor_facts(4) minor_facts(3) minor_spec_offset]
      quantize_reads_in_range [OF val phrygian_facts(4) phrygian_facts(3) phrygian_spec_offset]
    by (intro conjI)
qed

theorem quantizers_read_in_range_witness:
  "(0::int) \<le> 36 \<and> 36 \<le> totalNotes - 1 \<and>
   (\<exists>off\<in>set majorSteps.
      0 \<le> (c_div 36 12 * 12) + off \<and> (c_div 36 12 * 12) + off \<le> totalNotes - 1 \<and>
      quantizeToMajor 36 = value_at ((c_div 36 12 * 12) + off) \<and>
      quantizeToMajor 36 = Inr (tuningValues ! nat ((c_div 36 12 * 12) + off))) \<and>
   (\<exists>off\<in>set minorSteps.
      0 \<le> (c_div 36 12 * 12) + off \<and> (c_div 36 12 * 12) + off \<le> totalNotes - 1 \<and>
      quantizeToMinor 36 = value_at ((c_div 36 12 * 12) + off) \<and>
      quantizeToMinor 36 = Inr (tuningValues ! nat ((c_div 36 12 * 12) + off))) \<and>
   (\<exists>off\<in>set phrygianSteps.
      0 \<le> (c_div 36 12 * 12) + off \<and> (c_div 36 12 * 12) + off \<le> totalNotes - 1 \<and>
      quantizeToPhrygian 36 = value_at ((c_div 36 12 * 12) + off) \<and>
      quantizeToPhrygian 36 = Inr (tuningValues ! nat ((c_div 36 12 * 12) + off)))"
  using quantizers_read_in_range [of 36] by (simp add: totalNotes_eq)

section \<open>The value at 1 in the major scale\<close>

text \<open>
  Claim C3 says that \<^verbatim>\<open>quantizeToMajor(1)\<close> returns 11. It does not: 11 is the table
  entry at index 1, and semitone 1 is no degree of the major scale.
\<close>

theorem major_of_1_is_not_11: "quantizeToMajor 1 \<noteq> Inr 11"
  by (simp add: quantizeToMajor_def quantizeSteps_def majorSteps_def c_div_def c_mod_def
      scan.simps value_at_def tuningValues_def)

text \<open>
  Claim C3, amended. \<^verbatim>\<open>quantizeToMajor(1)\<close> returns 15: semitone 1 is rounded up to
  the offset 2, and the entry of the table at index 2 is 15.
\<close>

theorem major_of_1_is_15: "quantizeToMajor 1 = value_at 2 \<and> value_at 2 = Inr 15"
  by (simp add: quantizeToMajor_def quantizeSteps_def majorSteps_def c_div_def c_mod_def
      scan.simps value_at_def tuningValues_def)

section \<open>A semitone of the scale is kept\<close>

lemma quantize_exact:
  assumes val: "0 \<le> val" "val \<le> 36"
    and mem: "c_mod val 12 \<in> set steps"
  shows "value_at ((c_div val 12 * 12) + spec_offset steps (c_mod val 12)) =
           Inr (tuningValues ! nat val)"
proof -
  from mem have "spec_offset steps (c_mod val 12) = c_mod val 12"
    by (rule spec_offset_exact)
  then have "(c_div val 12 * 12) + spec_offset steps (c_mod val 12) = val"
    by (simp add: c_div_mod_decompose)
  with val show ?thesis
    by (simp add: value_at_in_range)
qed

text \<open>
  Claim C4. For every \<open>val\<close> from 0 to \<open>totalNotes - 1\<close> and each of the three
  quantizers, when \<open>semitone = val % 12\<close> is an offset of the scale, the result is the
  table entry at \<open>(val / 12) * 12 + semitone\<close>, which is the entry at \<open>val\<close>. In
  particular \<^verbatim>\<open>quantizeToMajor(0)\<close> is 0, and \<^verbatim>\<open>quantizeToPhrygian(12)\<close> is the
  entry at 12, which is 57.
\<close>

theorem quantizers_exact_match:
  assumes "0 \<le> val" and "val \<le> totalNotes - 1"
  shows "(c_mod val 12 \<in> set majorSteps \<longrightarrow>
            quantizeToMajor val = Inr (tuningValues ! nat ((c_div val 12 * 12) + c_mod val 12)) \<and>
            quantizeToMajor val = Inr (tuningValues ! nat val)) \<and>
         (c_mod val 12 \<in> set minorSteps \<longrightarrow>
            quantizeToMinor val = Inr (tuningValues ! nat ((c_div val 12 * 12) + c_mod val 12)) \<and>
            quantizeToMinor val = Inr (tuningValues ! nat val)) \<and>
         (c_mod val 12 \<in> set phrygianSteps \<longrightarrow>
            quantizeToPhrygian val =
              Inr (tuningValues ! nat ((c_div val 12 * 12) + c_mod val 12)) \<and>
            quantizeToPhrygian val = Inr (tuningValues ! nat val)) \<and>
         quantizeToMajor 0 = Inr 0 \<and>
         quantizeToPhrygian 12 = Inr (tuningValues ! 12) \<and> tuningValues ! 12 = 57"
proof -
  from assms have val: "0 \<le> val" "val \<le> 36"
    by (simp_all add: totalNotes_eq)
  have "quantizeToMajor val = Inr (tuningValues ! nat val)"
    if "c_mod val 12 \<in> set majorSteps"
    unfolding major_spec_offset using val that by (rule quantize_exact)
  moreover have "quantizeToMinor val = Inr (tuningValues ! nat val)"
    if "c_mod val 12 \<in> set minorSteps"
    unfolding minor_spec_offset using val that by (rule quantize_exact)
  moreover have "quantizeToPhrygian val = Inr (tuningValues ! nat val)"
    if "c_mod val 12 \<in> set phrygianSteps"
    unfolding phrygian_spec_offset using val that by (rule quantize_exact)
  moreover have "quantizeToMajor 0 = Inr 0"
    unfolding major_spec_offset
    using quantize_exact [of 0 majorSteps] by (simp add: c_mod_def c_div_def major_facts tuningValues_def)
  moreover have "quantizeToPhrygian 12 = Inr (tuningValues ! 12)"
    unfolding phrygian_spec_offset
    using quantize_exact [of 12 phrygianSteps] by (simp add: c_mod_def c_div_def phrygian_facts)
  moreover have "tuningValues ! 12 = 57"
    by (simp add: tuningValues_def)
  ultimately show ?thesis
    by (simp add: c_div_mod_decompose)
qed

theorem quantizers_exact_match_witness:
  "(0::int) \<le> 19 \<and> 19 \<le> totalNotes - 1 \<and>
   c_mod 19 12 \<in> set majorSteps \<and> quantizeToMajor 19 = Inr 86 \<and>
   c_mod 19 12 \<in> set minorSteps \<and> quantizeToMinor 19 = Inr 86 \<and>
   c_mod 19 12 \<in> set phrygianSteps \<and> quantizeToPhrygian 19 = Inr 86 \<and>
   tuningValues ! nat 19 = 86"
  using quantizers_exact_match [of 19]
  by (simp add: totalNotes_eq c_div_def c_mod_def majorSteps_def minorSteps_def
      phrygianSteps_def tuningValues_def)

section \<open>Monotonicity within an octave\<close>

lemma quantize_octave_mono:
  assumes k: "0 \<le> 12 * k" "12 * k + 11 \<le> 36"
    and st: "0 \<le> s" "s \<le> t" "t \<le> 11"
    and steps: "list_all (\<lambda>off. 0 \<le> off \<and> off \<le> 11) steps" "0 \<in> set steps"
  shows "\<exists>a b. value_at ((c_div (12 * k + s) 12 * 12) + spec_offset steps (c_mod (12 * k + s) 12)) = Inr a \<and>
               value_at ((c_div (12 * k + t) 12 * 12) + spec_offset steps (c_mod (12 * k + t) 12)) = Inr b \<and>
               a \<le> b"
proof -
  let ?i = "(c_div (12 * k + s) 12 * 12) + spec_offset steps (c_mod (12 * k + s) 12)"
  let ?j = "(c_div (12 * k + t) 12 * 12) + spec_offset steps (c_mod (12 * k + t) 12)"
  from k st have vs: "0 \<le> 12 * k + s" "12 * k + s \<le> 36"
    and vt: "0 \<le> 12 * k + t" "12 * k + t \<le> 36"
    by simp_all
  from k st have ds: "c_div (12 * k + s) 12 = k" "c_mod (12 * k + s) 12 = s"
    by (simp_all add: c_div_nonneg c_mod_nonneg)
  from k st have dt: "c_div (12 * k + t) 12 = k" "c_mod (12 * k + t) 12 = t"
    by (simp_all add: c_div_nonneg c_mod_nonneg)
  from st(2) have "spec_offset steps s \<le> spec_offset steps t"
    by (rule spec_offset_mono)
  then have ij: "?i \<le> ?j"
    by (simp add: ds dt)
  from spec_index_in_range [OF vs steps] have i: "0 \<le> ?i" "?i \<le> 36"
    by simp_all
  from spec_index_in_range [OF vt steps] have j: "0 \<le> ?j" "?j \<le> 36"
    by simp_all
  from i(1) ij j(2) have "tuningValues ! nat ?i \<le> tuningValues ! nat ?j"
    by (rule tuningValues_mono)
  with i j show ?thesis
    by (simp add: value_at_in_range)
qed

text \<open>
  Claim C5. For each of the three quantizers and every octave \<open>k\<close> with \<open>12 * k\<close> and
  \<open>12 * k + 11\<close> both between 0 and \<open>totalNotes - 1\<close>, the results at
  \<open>12 * k, 12 * k + 1, \<dots>, 12 * k + 11\<close> are non-decreasing: for semitones
  \<open>s \<le> t\<close> of the octave the result at \<open>12 * k + s\<close> is at most the result at
  \<open>12 * k + t\<close>.
\<close>

theorem quantizers_monotone_in_octave:
  assumes "0 \<le> 12 * k" and "12 * k + 11 \<le> totalNotes - 1"
    and "0 \<le> s" and "s \<le> t" and "t \<le> 11"
  shows "(\<exists>a b. quantizeToMajor (12 * k + s) = Inr a \<and>
                quantizeToMajor (12 * k + t) = Inr b \<and> a \<le> b) \<and>
         (\<exists>a b. quantizeToMinor (12 * k + s) = Inr a \<and>
                quantizeToMinor (12 * k + t) = Inr b \<and> a \<le> b) \<and>
         (\<exists>a b. quantizeToPhrygian (12 * k + s) = Inr a \<and>
                quantizeToPhrygian (12 * k + t) = Inr b \<and> a \<le> b)"
proof -
  from assms have k: "0 \<le> 12 * k" "12 * k + 11 \<le> 36"
    by (simp_all add: totalNotes_eq)
  note st = assms(3-5)
  show ?thesis
    unfolding major_spec_offset minor_spec_offset phrygian_spec_offset
    using quantize_octave_mono [OF k st major_facts(4) major_facts(3)]
      quantize_octave_mono [OF k st minor_facts(4) minor_facts(3)]
      quantize_octave_mono [OF k st phrygian_facts(4) phrygian_facts(3)]
    by (intro conjI)
qed

theorem quantizers_monotone_in_octave_witness:
  "(0::int) \<le> 12 * 2 \<and> (12::int) * 2 + 11 \<le> totalNotes - 1 \<and>
   (0::int) \<le> 10 \<and> (10::int) \<le> 11 \<and> (11::int) \<le> 11 \<and>
   (\<exists>a b. quantizeToMajor (12 * 2 + 10) = Inr a \<and>
          quantizeToMajor (12 * 2 + 11) = Inr b \<and> a \<le> b) \<and>
   (\<exists>a b. quantizeToMinor (12 * 2 + 10) = Inr a \<and>
          quantizeToMinor (12 * 2 + 11) = Inr b \<and> a \<le> b) \<and>
   (\<exists>a b. quantizeToPhrygian (12 * 2 + 10) = Inr a \<and>
          quantizeToPhrygian (12 * 2 + 11) = Inr b \<and> a \<le> b)"
  using quantizers_monotone_in_octave [of 2 10 11] by (simp add: totalNotes_eq)

section \<open>The three scales\<close>







section \<open>The shape of the tuning table\<close>

text \<open>
  Claim C7. The table \<open>tuningValues\<close> has exactly 37 entries, three octaves of 12
  semitones and one more note; its entries are non-decreasing from the first to the last;
  and \<open>totalNotes\<close> is 37, the length of the table.
\<close>

theorem tuning_table_shape:
  "length tuningValues = 37 \<and> length tuningValues = 3 * 12 + 1 \<and> sorted tuningValues \<and>
   totalNotes = 37 \<and> totalNotes = int (length tuningValues)"
  by (simp add: totalNotes_def) (simp add: tuningValues_def)

section \<open>The loop of the major quantizer always returns\<close>

lemma major_find_Some:
  assumes "semitone \<le> 11"
  shows "\<exists>off\<in>set majorSteps. semitone \<le> off \<and>
           find (\<lambda>off. semitone \<le> off) majorSteps = Some off"
proof (cases "find (\<lambda>off. semitone \<le> off) majorSteps")
  case None
  then have "\<forall>off\<in>set majorSteps. \<not> semitone \<le> off"
    by (auto simp: find_None_iff)
  moreover have "11 \<in> set majorSteps"
    by (simp add: majorSteps_def)
  ultimately show ?thesis
    using assms by blast
next
  case (Some off)
  then have "off \<in> set majorSteps \<and> semitone \<le> off"
    by (auto simp: find_Some_iff)
  with Some show ?thesis
    by blast
qed

text \<open>
  Claim C8. For every \<open>val \<ge> 0\<close> the loop of \<^verbatim>\<open>quantizeToMajor\<close> returns from its
  body at some offset of the scale, because \<open>semitone = val % 12\<close> is at most 11 and the
  last major offset is 11: the loop never runs to its end, so the \<^verbatim>\<open>return\<close> after it is
  not reached.
\<close>

theorem major_loop_always_returns:
  assumes "0 \<le> val"
  shows "c_mod val 12 \<le> 11 \<and> last majorSteps = 11 \<and>
         scan majorSteps (c_div val 12) (c_mod val 12) 0 \<noteq> None \<and>
         (\<exists>off\<in>set majorSteps. c_mod val 12 \<le> off \<and>
            scan majorSteps (c_div val 12) (c_mod val 12) 0 =
              Some (value_at ((c_div val 12 * 12) + off)) \<and>
            quantizeToMajor val = value_at ((c_div val 12 * 12) + off))"
proof -
  from assms have le: "c_mod val 12 \<le> 11"
    by (simp add: c_mod_nonneg)
  then obtain off where off: "off \<in> set majorSteps" "c_mod val 12 \<le> off"
    "find (\<lambda>off. c_mod val 12 \<le> off) majorSteps = Some off"
    using major_find_Some by blast
  have sc: "scan majorSteps (c_div val 12) (c_mod val 12) 0 =
      Some (value_at ((c_div val 12 * 12) + off))"
    by (simp add: scan_find major_facts off(3))
  then have "quantizeToMajor val = value_at ((c_div val 12 * 12) + off)"
    by (simp add: quantizeToMajor_def quantizeSteps_def)
  with le sc off show ?thesis
    by (auto simp: majorSteps_def)
qed

theorem major_loop_always_returns_witness:
  "(0::int) \<le> 1007 \<and> c_mod 1007 12 = 11 \<and>
   scan majorSteps (c_div 1007 12) (c_mod 1007 12) 0 = Some (Inl OutOfBounds) \<and>
   (0::int) \<le> 35 \<and> c_mod 35 12 = 11 \<and>
   scan majorSteps (c_div 35 12) (c_mod 35 12) 0 = Some (Inr 153)"
  using major_loop_always_returns [of 1007] major_loop_always_returns [of 35]
  by (simp add: c_div_def c_mod_def majorSteps_def scan.simps value_at_def tuningValues_def)

section \<open>Rounding down at the top semitone\<close>

lemma quantize_not_below:
  assumes val: "0 \<le> val" "val \<le> 36"
    and steps: "list_all (\<lambda>off. 0 \<le> off \<and> off \<le> 11) steps" "0 \<in> set steps"
    and ex: "\<exists>off\<in>set steps. c_mod val 12 \<le> off"
  shows "\<exists>a. value_at ((c_div val 12 * 12) + spec_offset steps (c_mod val 12)) = Inr a \<and>
             tuningValues ! nat val \<le> a"
proof -
  let ?i = "(c_div val 12 * 12) + spec_offset steps (c_mod val 12)"
  from ex have "c_mod val 12 \<le> spec_offset steps (c_mod val 12)"
    by (rule spec_offset_ge)
  then have "(c_div val 12 * 12) + c_mod val 12 \<le> ?i"
    by simp
  then have le: "val \<le> ?i"
    by (simp only: c_div_mod_decompose)
  from spec_index_in_range [OF val steps] have i: "0 \<le> ?i" "?i \<le> 36"
    by simp_all
  from val(1) le i(2) have "tuningValues ! nat val \<le> tuningValues ! nat ?i"
    by (rule tuningValues_mono)
  with i show ?thesis
    by (simp add: value_at_in_range)
qed

lemma quantize_top_semitone:
  assumes val: "0 \<le> val" "val \<le> 36"
    and top: "c_mod val 12 = 11"
    and fb: "spec_offset steps 11 = 10"
  shows "(c_div val 12 * 12) + 10 = val - 1 \<and>
         value_at ((c_div val 12 * 12) + spec_offset steps (c_mod val 12)) =
           Inr (tuningValues ! nat (val - 1)) \<and>
         tuningValues ! nat (val - 1) < tuningValues ! nat val"
proof -
  from c_div_mod_decompose [of val] top have idx: "(c_div val 12 * 12) + 10 = val - 1"
    by simp
  from val(1) top have "val mod 12 = 11"
    by (simp add: c_mod_nonneg)
  with val(1) have pos: "0 \<le> val - 1"
    by presburger
  with val(2) have "value_at (val - 1) = Inr (tuningValues ! nat (val - 1))"
    by (simp add: value_at_in_range)
  then have "value_at ((c_div val 12 * 12) + spec_offset steps (c_mod val 12)) =
      Inr (tuningValues ! nat (val - 1))"
    by (simp only: top fb idx)
  moreover from pos val(2) have "tuningValues ! nat (val - 1) < tuningValues ! nat val"
    by (intro tuningValues_strict) simp_all
  ultimately show ?thesis
    using idx by blast
qed

lemma minor_fallback: "spec_offset minorSteps 11 = 10"
  by (simp add: spec_offset_def minorSteps_def)

lemma phrygian_fallback: "spec_offset phrygianSteps 11 = 10"
  by (simp add: spec_offset_def phrygianSteps_def)

lemma minor_below_iff:
  assumes val: "0 \<le> val" "val \<le> 36"
  shows "(\<exists>a. quantizeToMinor val = Inr a \<and> a < tuningValues ! nat val) \<longleftrightarrow>
           c_mod val 12 = 11"
proof (cases "c_mod val 12 = 11")
  case True
  with quantize_top_semitone [OF val True minor_fallback] show ?thesis
    by (simp add: minor_spec_offset)
next
  case False
  with val(1) have "c_mod val 12 \<le> 10"
    by (simp add: c_mod_nonneg)
  moreover have "10 \<in> set minorSteps"
    by (simp add: minorSteps_def)
  ultimately have "\<exists>off\<in>set minorSteps. c_mod val 12 \<le> off"
    by blast
  from quantize_not_below [OF val minor_facts(4) minor_facts(3) this] False
  show ?thesis
    by (auto simp: minor_spec_offset)
qed

lemma phrygian_below_iff:
  assumes val: "0 \<le> val" "val \<le> 36"
  shows "(\<exists>a. quantizeToPhrygian val = Inr a \<and> a < tuningValues ! nat val) \<longleftrightarrow>
           c_mod val 12 = 11"
proof (cases "c_mod val 12 = 11")
  case True
  with quantize_top_semitone [OF val True phrygian_fallback] show ?thesis
    by (simp add: phrygian_spec_offset)
next
  case False
  with val(1) have "c_mod val 12 \<le> 10"
    by (simp add: c_mod_nonneg)
  moreover have "10 \<in> set phrygianSteps"
    by (simp add: phrygianSteps_def)
  ultimately have "\<exists>off\<in>set phrygianSteps. c_mod val 12 \<le> off"
    by blast
  from quantize_not_below [OF val phrygian_facts(4) phrygian_facts(3) this] False
  show ?thesis
    by (auto simp: phrygian_spec_offset)
qed

lemma major_not_below:
  assumes val: "0 \<le> val" "val \<le> 36"
  shows "\<exists>a. quantizeToMajor val = Inr a \<and> tuningValues ! nat val \<le> a"
proof -
  from val(1) have "c_mod val 12 \<le> 11"
    by (simp add: c_mod_nonneg)
  moreover have "11 \<in> set majorSteps"
    by (simp add: majorSteps_def)
  ultimately have "\<exists>off\<in>set majorSteps. c_mod val 12 \<le> off"
    by blast
  from quantize_not_below [OF val major_facts(4) major_facts(3) this] show ?thesis
    by (simp add: major_spec_offset)
qed

text \<open>
  Claim C9. For every \<open>val\<close> from 0 to \<open>totalNotes - 1\<close> with \<open>val % 12 = 11\<close>,
  \<^verbatim>\<open>quantizeToMinor\<close> and \<^verbatim>\<open>quantizeToPhrygian\<close> return the table entry at
  \<open>val - 1\<close> (the index \<open>(val / 12) * 12 + 10\<close> they fall back to), which is strictly
  less than the entry at \<open>val\<close>. These are the only arguments in range at which one of
  the three quantizers returns less than the entry of its argument: minor and Phrygian do
  so exactly when \<open>val % 12 = 11\<close>, major never does.
\<close>

theorem top_semitone_rounds_down:
  assumes "0 \<le> val" and "val \<le> totalNotes - 1"
  shows "(c_mod val 12 = 11 \<longrightarrow>
            (c_div val 12 * 12) + 10 = val - 1 \<and>
            quantizeToMinor val = Inr (tuningValues ! nat (val - 1)) \<and>
            quantizeToPhrygian val = Inr (tuningValues ! nat (val - 1)) \<and>
            tuningValues ! nat (val - 1) < tuningValues ! nat val) \<and>
         ((\<exists>a. quantizeToMinor val = Inr a \<and> a < tuningValues ! nat val) \<longleftrightarrow>
            c_mod val 12 = 11) \<and>
         ((\<exists>a. quantizeToPhrygian val = Inr a \<and> a < tuningValues ! nat val) \<longleftrightarrow>
            c_mod val 12 = 11) \<and>
         (\<exists>a. quantizeToMajor val = Inr a \<and> tuningValues ! nat val \<le> a)"
proof -
  from assms have val: "0 \<le> val" "val \<le> 36"
    by (simp_all add: totalNotes_eq)
  have "(c_div val 12 * 12) + 10 = val - 1 \<and>
      quantizeToMinor val = Inr (tuningValues ! nat (val - 1)) \<and>
      quantizeToPhrygian val = Inr (tuningValues ! nat (val - 1)) \<and>
      tuningValues ! nat (val - 1) < tuningValues ! nat val"
    if top: "c_mod val 12 = 11"
    using quantize_top_semitone [OF val top minor_fallback]
      quantize_top_semitone [OF val top phrygian_fallback]
    by (simp add: minor_spec_offset phrygian_spec_offset)
  with minor_below_iff [OF val] phrygian_below_iff [OF val] major_not_below [OF val]
  show ?thesis
    by blast
qed

theorem top_semitone_rounds_down_witness:
  "(0::int) \<le> 23 \<and> 23 \<le> totalNotes - 1 \<and> c_mod 23 12 = 11 \<and>
   (c_div 23 12 * 12) + 10 = 23 - 1 \<and>
   quantizeToMinor 23 = Inr 99 \<and> quantizeToPhrygian 23 = Inr 99 \<and>
   tuningValues ! nat (23 - 1) = 99 \<and> tuningValues ! nat 23 = 103"
  using top_semitone_rounds_down [of 23]
  by (simp add: totalNotes_eq c_div_def c_mod_def tuningValues_def)

section \<open>Minor and Phrygian\<close>

lemma minor_phrygian_find:
  assumes "semitone \<le> 0 \<or> 3 \<le> semitone"
  shows "find (\<lambda>off. semitone \<le> off) minorSteps = find (\<lambda>off. semitone \<le> off) phrygianSteps"
  using assms by (auto simp: minorSteps_def phrygianSteps_def)

text \<open>
  Claim C10. For every \<open>val\<close> from 0 to \<open>totalNotes - 1\<close> whose semitone
  \<open>val % 12\<close> is neither 1 nor 2, \<^verbatim>\<open>quantizeToMinor\<close> and \<^verbatim>\<open>quantizeToPhrygian\<close>
  return the same value: the two scales have the same offsets from 3 upwards and both
  contain 0.
\<close>

theorem minor_phrygian_agree:
  assumes "0 \<le> val" and "val \<le> totalNotes - 1"
    and "c_mod val 12 \<noteq> 1" and "c_mod val 12 \<noteq> 2"
  shows "quantizeToMinor val = quantizeToPhrygian val \<and>
         filter (\<lambda>off. 3 \<le> off) minorSteps = filter (\<lambda>off. 3 \<le> off) phrygianSteps \<and>
         0 \<in> set minorSteps \<and> 0 \<in> set phrygianSteps"
proof -
  from assms(1) have "0 \<le> c_mod val 12"
    by (simp add: c_mod_nonneg)
  with assms(3,4) have "c_mod val 12 \<le> 0 \<or> 3 \<le> c_mod val 12"
    by linarith
  then have "find (\<lambda>off. c_mod val 12 \<le> off) minorSteps =
      find (\<lambda>off. c_mod val 12 \<le> off) phrygianSteps"
    by (rule minor_phrygian_find)
  then have "quantizeToMinor val = quantizeToPhrygian val"
    by (simp add: quantizeToMinor_def quantizeToPhrygian_def quantizeSteps_def scan_find
        minor_facts phrygian_facts)
  then show ?thesis
    by (simp add: minorSteps_def phrygianSteps_def)
qed

theorem minor_phrygian_agree_witness:
  "(0::int) \<le> 16 \<and> 16 \<le> totalNotes - 1 \<and> c_mod 16 12 \<noteq> 1 \<and> c_mod 16 12 \<noteq> 2 \<and>
   quantizeToMinor 16 = Inr 77 \<and> quantizeToPhrygian 16 = Inr 77"
  using minor_phrygian_agree [of 16]
  by (simp add: totalNotes_eq c_div_def c_mod_def quantizeToPhrygian_def quantizeSteps_def
      phrygianSteps_def scan.simps value_at_def tuningValues_def)

end
